theory Spec2Isabelle
  imports Complex_Main "HOL-Library.Sublist"
begin

section \<open>JavaScript values\<close>

text \<open>
  The backend's responses reach the code through \<^verbatim>\<open>JSON.parse\<close>, and the code inspects
  them dynamically (\<^verbatim>\<open>Array.isArray\<close>, \<^verbatim>\<open>typeof\<close>, truthiness). A value is therefore a
  JSON value, or \<^verbatim>\<open>undefined\<close> (what reading an absent property gives). Numbers are
  modelled as reals: every finite double is one, and no function below rounds.
  An object is the list of its properties, looked up by key. A string is the list of its
  code units, so \<^verbatim>\<open>slice(0, n)\<close> is \<open>take n\<close>.
\<close>

datatype jsval =
    JUndefined
  | JNull
  | JBool bool
  | JNum real
  | JStr string
  | JArr "jsval list"
  | JObj "(string \<times> jsval) list"

text \<open>An exception object: its \<^verbatim>\<open>name\<close> and its \<^verbatim>\<open>message\<close>.\<close>

record js_error =
  err_name :: string
  err_message :: string

definition Error :: "string \<Rightarrow> js_error" where
  "Error m = \<lparr>err_name = ''Error'', err_message = m\<rparr>"

text \<open>
  A \<^verbatim>\<open>TypeError\<close> raised by the runtime itself. The wording of its message belongs to
  the engine; the model carries a description of the failed operation in its place.
\<close>

definition TypeError :: "string \<Rightarrow> js_error" where
  "TypeError m = \<lparr>err_name = ''TypeError'', err_message = m\<rparr>"

fun truthy :: "jsval \<Rightarrow> bool" where
  "truthy JUndefined = False"
| "truthy JNull = False"
| "truthy (JBool b) = b"
| "truthy (JNum x) = (x \<noteq> 0)"
| "truthy (JStr s) = (s \<noteq> [])"
| "truthy (JArr xs) = True"
| "truthy (JObj kvs) = True"

fun isArray :: "jsval \<Rightarrow> bool" where
  "isArray (JArr xs) = True"
| "isArray v = False"

text \<open>The decimal digits of a non-negative integer, as \<^verbatim>\<open>String(n)\<close> prints it.\<close>

fun dec :: "nat \<Rightarrow> string" where
  "dec n = (if n < 10 then [''0123456789'' ! n] else dec (n div 10) @ [''0123456789'' ! (n mod 10)])"

text \<open>
  \<^verbatim>\<open>v.k\<close> on a receiver that is neither \<^verbatim>\<open>null\<close> nor \<^verbatim>\<open>undefined\<close>: an object gives
  its property, every other value \<^verbatim>\<open>undefined\<close> (the code never reads a built-in property
  such as \<^verbatim>\<open>length\<close> through this function).
\<close>

fun member :: "jsval \<Rightarrow> string \<Rightarrow> jsval" where
  "member (JObj kvs) k = (case map_of kvs k of Some v \<Rightarrow> v | None \<Rightarrow> JUndefined)"
| "member v k = JUndefined"

text \<open>\<^verbatim>\<open>v[i]\<close> on such a receiver: arrays and strings are indexed, objects looked up.\<close>

fun elem :: "jsval \<Rightarrow> nat \<Rightarrow> jsval" where
  "elem (JArr xs) i = (if i < length xs then xs ! i else JUndefined)"
| "elem (JStr s) i = (if i < length s then JStr [s ! i] else JUndefined)"
| "elem (JObj kvs) i = member (JObj kvs) (dec i)"
| "elem v i = JUndefined"

text \<open>\<^verbatim>\<open>v.k\<close> on any receiver: reading a property of \<^verbatim>\<open>null\<close> or \<^verbatim>\<open>undefined\<close> throws.\<close>

fun get :: "jsval \<Rightarrow> string \<Rightarrow> js_error + jsval" where
  "get JUndefined k = Inl (TypeError (''cannot read property '' @ k @ '' of undefined''))"
| "get JNull k = Inl (TypeError (''cannot read property '' @ k @ '' of null''))"
| "get v k = Inr (member v k)"

section \<open>Geometry Normalizer: \<^verbatim>\<open>toLatLngs\<close> (App.tsx)\<close>

text \<open>
  A point of the result is the pair \<^verbatim>\<open>[lat, lon]\<close>. Its components are whatever the
  payload held at positions 1 and 0: the code casts, it does not check them.
\<close>

type_synonym raw_latlng = "jsval \<times> jsval"

text \<open>The test \<^verbatim>\<open>Array.isArray(pt) && pt.length >= 2\<close>.\<close>

fun is_point :: "jsval \<Rightarrow> bool" where
  "is_point (JArr xs) = (length xs \<ge> 2)"
| "is_point v = False"

text \<open>The callback \<^verbatim>\<open>([lon, lat]) => [lat, lon]\<close>.\<close>

definition swap_point :: "jsval \<Rightarrow> raw_latlng" where
  "swap_point pt = (elem pt 1, elem pt 0)"

text \<open>The inner loop \<^verbatim>\<open>for (const pt of line) if (...) flat.push(pt)\<close>.\<close>

fun push_points :: "jsval list \<Rightarrow> jsval list \<Rightarrow> jsval list" where
  "push_points flat [] = flat"
| "push_points flat (pt # pts) = push_points (if is_point pt then flat @ [pt] else flat) pts"

text \<open>The outer loop \<^verbatim>\<open>for (const line of coords) if (Array.isArray(line)) ...\<close>.\<close>

fun push_lines :: "jsval list \<Rightarrow> jsval list \<Rightarrow> jsval list" where
  "push_lines flat [] = flat"
| "push_lines flat (line # lines) =
     push_lines (case line of JArr pts \<Rightarrow> push_points flat pts | _ \<Rightarrow> flat) lines"

text \<open>
  \<^verbatim>\<open>toLatLngs(geometry)\<close>. In the multi-part branch \<^verbatim>\<open>coords\<close> is iterated, which throws on
  an object; in the flat branch \<^verbatim>\<open>coords.filter\<close> is called, which throws on anything
  but an array.
\<close>

definition toLatLngs :: "jsval \<Rightarrow> js_error + raw_latlng list" where
  "toLatLngs geometry =
     (if \<not> truthy geometry \<or> \<not> truthy (member geometry ''coordinates'') then Inr []
      else let coords = member geometry ''coordinates'' in
        if isArray (elem coords 0) \<and> isArray (elem (elem coords 0) 0) then
          (case coords of
             JArr lines \<Rightarrow> Inr (map swap_point (push_lines [] lines))
           | _ \<Rightarrow> Inl (TypeError ''coords is not iterable''))
        else
          (case coords of
             JArr pts \<Rightarrow> Inr (map swap_point (filter is_point pts))
           | _ \<Rightarrow> Inl (TypeError ''coords.filter is not a function'')))"

text \<open>
  The claim's reading of a payload, in the spec's words: the source points are the
  elements of a flat payload, or those of its lines, in order, when the first element's
  first element is itself a sequence; a point counts when it has at least two numeric
  components.
\<close>

fun is_num :: "jsval \<Rightarrow> bool" where
  "is_num (JNum x) = True"
| "is_num v = False"

fun items :: "jsval \<Rightarrow> jsval list" where
  "items (JArr xs) = xs"
| "items v = []"

definition multi_part :: "jsval list \<Rightarrow> bool" where
  "multi_part cs = (isArray (elem (JArr cs) 0) \<and> isArray (elem (elem (JArr cs) 0) 0))"

definition source_points :: "jsval list \<Rightarrow> jsval list" where
  "source_points cs = (if multi_part cs then concat (map items cs) else cs)"

definition numeric_point :: "jsval \<Rightarrow> bool" where
  "numeric_point pt = (is_point pt \<and> is_num (elem pt 0) \<and> is_num (elem pt 1))"

definition payload :: "jsval list \<Rightarrow> jsval" where
  "payload cs = JObj [(''type'', JStr ''LineString''), (''coordinates'', JArr cs)]"

section \<open>Segment Classifier (MapView)\<close>

text \<open>
  MapView's \<^verbatim>\<open>LatLng\<close> is a pair of numbers, latitude first. The arithmetic of
  \<^verbatim>\<open>dist2\<close> is taken over the reals, and \<^verbatim>\<open>Number.POSITIVE_INFINITY\<close> is a value of its
  own.
\<close>

type_synonym LatLng = "real \<times> real"

datatype num = Fin real | POSITIVE_INFINITY

text \<open>\<^verbatim>\<open>d2 < best\<close> and \<^verbatim>\<open>best <= t\<close>, for a finite \<^verbatim>\<open>d2\<close> and \<^verbatim>\<open>t\<close>.\<close>

fun less_num :: "real \<Rightarrow> num \<Rightarrow> bool" where
  "less_num d (Fin b) = (d < b)"
| "less_num d POSITIVE_INFINITY = True"

fun num_le :: "num \<Rightarrow> real \<Rightarrow> bool" where
  "num_le (Fin b) t = (b \<le> t)"
| "num_le POSITIVE_INFINITY t = False"

definition dist2 :: "LatLng \<Rightarrow> LatLng \<Rightarrow> real" where
  "dist2 a b = (let dx = fst a - fst b; dy = snd a - snd b in dx * dx + dy * dy)"

text \<open>The loop of \<^verbatim>\<open>minDist2ToBase\<close> over the points of the base, \<^verbatim>\<open>best\<close> threaded.\<close>

fun minDist2_loop :: "LatLng \<Rightarrow> LatLng list \<Rightarrow> num \<Rightarrow> num" where
  "minDist2_loop p [] best = best"
| "minDist2_loop p (b # bs) best =
     minDist2_loop p bs (let d2 = dist2 p b in if less_num d2 best then Fin d2 else best)"

definition minDist2ToBase :: "LatLng list option \<Rightarrow> LatLng \<Rightarrow> num" where
  "minDist2ToBase base p =
     (case base of None \<Rightarrow> POSITIVE_INFINITY
      | Some bs \<Rightarrow> minDist2_loop p bs POSITIVE_INFINITY)"

definition GREEN_THRESHOLD_DEG2 :: real where
  "GREEN_THRESHOLD_DEG2 = 0.0005 * 0.0005"

definition near :: "LatLng list option \<Rightarrow> LatLng \<Rightarrow> bool" where
  "near base pt = num_le (minDist2ToBase base pt) GREEN_THRESHOLD_DEG2"

text \<open>The variables of the walk along the detour.\<close>

record seg_state =
  current :: "LatLng list"
  currentIsGreen :: bool
  greenSegments :: "LatLng list list"
  redSegments :: "LatLng list list"

text \<open>
  The block \<^verbatim>\<open>if (current.length > 1) { if (currentIsGreen) greenSegments.push(current)
  else redSegments.push(current) }\<close>, which the code has twice: at a change of
  classification and after the loop.
\<close>

definition push_current :: "seg_state \<Rightarrow> seg_state" where
  "push_current st =
     (if length (current st) > 1 then
        (if currentIsGreen st then st\<lparr>greenSegments := greenSegments st @ [current st]\<rparr>
         else st\<lparr>redSegments := redSegments st @ [current st]\<rparr>)
      else st)"

text \<open>
  The body of the loop for \<^verbatim>\<open>i > 0\<close>; \<open>nr\<close> is the flag \<^verbatim>\<open>near\<close> computed for \<^verbatim>\<open>pt\<close>,
  and \<open>prev\<close> is \<^verbatim>\<open>detour[i - 1]\<close>.
\<close>

definition step :: "bool \<Rightarrow> LatLng \<Rightarrow> LatLng \<Rightarrow> seg_state \<Rightarrow> seg_state" where
  "step nr prev pt st =
     (if nr = currentIsGreen st then st\<lparr>current := current st @ [pt]\<rparr>
      else (push_current st)\<lparr>current := [prev, pt], currentIsGreen := nr\<rparr>)"

text \<open>The iterations \<^verbatim>\<open>i = 1, ..., detour.length - 1\<close>, the previous point carried along.\<close>

fun walk :: "(LatLng \<Rightarrow> bool) \<Rightarrow> LatLng \<Rightarrow> LatLng list \<Rightarrow> seg_state \<Rightarrow> seg_state" where
  "walk f prev [] st = st"
| "walk f prev (pt # rest) st = walk f pt rest (step (f pt) prev pt st)"

text \<open>\<^verbatim>\<open>r && r.length > 1 ? r : null\<close>.\<close>

definition usable :: "LatLng list option \<Rightarrow> LatLng list option" where
  "usable r = (case r of None \<Rightarrow> None | Some ps \<Rightarrow> if length ps > 1 then Some ps else None)"

text \<open>
  The segments MapView computes from its props \<^verbatim>\<open>baseRoute\<close> (optional) and \<^verbatim>\<open>route\<close>:
  the pair \<^verbatim>\<open>(greenSegments, redSegments)\<close>. The iteration \<^verbatim>\<open>i = 0\<close> starts the first
  run.
\<close>

definition segments :: "LatLng list option \<Rightarrow> LatLng list \<Rightarrow> LatLng list list \<times> LatLng list list" where
  "segments baseRoute route =
     (let base = usable baseRoute; detour = usable (Some route) in
      case (detour, base) of
        (Some (pt # rest), Some b) \<Rightarrow>
          (let st0 = \<lparr>current = [pt], currentIsGreen = near base pt,
                      greenSegments = [], redSegments = []\<rparr>;
               st = push_current (walk (near base) pt rest st0)
           in (greenSegments st, redSegments st))
      | _ \<Rightarrow> ([], []))"

text \<open>The spec's \<^verbatim>\<open>classify(base, detour)\<close>, at the reference threshold.\<close>

definition classify :: "LatLng list \<Rightarrow> LatLng list \<Rightarrow> LatLng list list \<times> LatLng list list" where
  "classify base detour = segments (Some base) detour"

text \<open>
  The emitted segments in their order along the detour. Consecutive runs have opposite
  classifications, and the first emitted run has the classification of the detour's
  second point (a first run of one point is not emitted), so the order is recovered by
  taking from the two lists in turn.
\<close>

fun weave :: "'a list \<Rightarrow> 'a list \<Rightarrow> 'a list" where
  "weave [] ys = ys"
| "weave xs [] = xs"
| "weave (x # xs) (y # ys) = x # y # weave xs ys"

fun second_near :: "LatLng list \<Rightarrow> LatLng list \<Rightarrow> bool" where
  "second_near base (p0 # p1 # ps) = near (Some base) p1"
| "second_near base ps = False"

definition in_order :: "LatLng list \<Rightarrow> LatLng list \<Rightarrow> LatLng list list" where
  "in_order base detour =
     (if second_near base detour then weave (fst (classify base detour)) (snd (classify base detour))
      else weave (snd (classify base detour)) (fst (classify base detour)))"

text \<open>Joining segments end to end, the shared first point of each later one dropped.\<close>

fun glue :: "'a list list \<Rightarrow> 'a list" where
  "glue [] = []"
| "glue (s # ss) = s @ concat (map tl ss)"

text \<open>Each segment ends where the next one starts.\<close>

fun chained :: "'a list list \<Rightarrow> bool" where
  "chained (s # t # ss) = (last s = hd t \<and> chained (t # ss))"
| "chained ss = True"

text \<open>
  For the proofs: the runs emitted so far, each with its classification, in the order of
  their emission; the two lists of the code are its projections.
\<close>

fun alt :: "bool list \<Rightarrow> bool" where
  "alt (a # b # ls) = (a \<noteq> b \<and> alt (b # ls))"
| "alt ls = True"

definition greens :: "(bool \<times> 'a) list \<Rightarrow> 'a list" where
  "greens E = map snd (filter fst E)"

definition reds :: "(bool \<times> 'a) list \<Rightarrow> 'a list" where
  "reds E = map snd (filter (\<lambda>e. \<not> fst e) E)"

definition inv :: "(LatLng \<Rightarrow> bool) \<Rightarrow> LatLng list \<Rightarrow> (bool \<times> LatLng list) list \<Rightarrow> seg_state \<Rightarrow> bool" where
  "inv f P E st =
     (greenSegments st = greens E \<and> redSegments st = reds E
      \<and> alt (map fst E @ [currentIsGreen st])
      \<and> (\<forall>e \<in> set E. 2 \<le> length (snd e))
      \<and> current st \<noteq> []
      \<and> glue (map snd E @ [current st]) = P
      \<and> chained (map snd E @ [current st])
      \<and> last (current st) = last P
      \<and> (E \<noteq> [] \<longrightarrow> 2 \<le> length (current st))
      \<and> (2 \<le> length P \<longrightarrow> hd (map fst E @ [currentIsGreen st]) = f (P ! 1)))"

section \<open>Stop Deduplicator (App.tsx, \<^verbatim>\<open>onSubmit\<close>)\<close>

text \<open>
  Built-ins of the engine that the model does not define: printing a number
  (\<^verbatim>\<open>String(n)\<close>, which a template literal applies), \<^verbatim>\<open>n.toFixed(d)\<close>, and \<^verbatim>\<open>JSON.parse\<close>,
  which returns the value or the \<^verbatim>\<open>SyntaxError\<close> it throws. Every function that uses one
  takes them as its first argument.
\<close>

record js_runtime =
  Number_toString :: "real \<Rightarrow> string"
  Number_toFixed :: "real \<Rightarrow> nat \<Rightarrow> string"
  JSON_parse :: "string \<Rightarrow> js_error + jsval"

text \<open>
  A \<^verbatim>\<open>StopPoint\<close> as \<^verbatim>\<open>onSubmit\<close> builds it: the fields guarded by \<^verbatim>\<open>typeof ... === 'number'\<close>
  are a number or \<^verbatim>\<open>undefined\<close>; the others hold whatever the response held (for
  \<^verbatim>\<open>lat\<close> and \<^verbatim>\<open>lon\<close>, possibly a component of \<^verbatim>\<open>coord\<close>).
\<close>

record StopPoint =
  station_id :: "real option"
  lat :: jsval
  lon :: jsval
  name :: jsval
  city :: jsval
  state :: jsval
  price :: "real option"
  address :: jsval
  gallons_purchased :: "real option"
  cost :: "real option"
  mile_on_route :: "real option"

text \<open>
  \<^verbatim>\<open>v?.toFixed?.(6) ?? ''\<close>: a number is printed; a value with no \<^verbatim>\<open>toFixed\<close> gives the
  empty string; an object whose own \<^verbatim>\<open>toFixed\<close> property is not nullish is called, which
  throws, as no JSON value is a function.
\<close>

fun fixed6 :: "js_runtime \<Rightarrow> jsval \<Rightarrow> js_error + string" where
  "fixed6 rt (JNum x) = Inr (Number_toFixed rt x 6)"
| "fixed6 rt (JObj kvs) =
     (case member (JObj kvs) ''toFixed'' of
        JUndefined \<Rightarrow> Inr []
      | JNull \<Rightarrow> Inr []
      | _ \<Rightarrow> Inl (TypeError ''toFixed is not a function''))"
| "fixed6 rt v = Inr []"

text \<open>The key of a stop: by \<^verbatim>\<open>station_id\<close> when it is a number, else by position.\<close>

definition stop_key :: "js_runtime \<Rightarrow> StopPoint \<Rightarrow> js_error + string" where
  "stop_key rt s =
     (case station_id s of
        Some i \<Rightarrow> Inr (''id:'' @ Number_toString rt i)
      | None \<Rightarrow>
          (case fixed6 rt (lat s) of
             Inl e \<Rightarrow> Inl e
           | Inr a \<Rightarrow>
               (case fixed6 rt (lon s) of
                  Inl e \<Rightarrow> Inl e
                | Inr b \<Rightarrow> Inr (''ll:'' @ a @ '','' @ b))))"

text \<open>The loop \<^verbatim>\<open>for (const s of stopPts)\<close>, with the set \<^verbatim>\<open>seen\<close> and the list \<^verbatim>\<open>dedup\<close>.\<close>

fun dedupe_loop ::
  "js_runtime \<Rightarrow> string set \<Rightarrow> StopPoint list \<Rightarrow> StopPoint list \<Rightarrow> js_error + StopPoint list"
where
  "dedupe_loop rt seen dedup [] = Inr dedup"
| "dedupe_loop rt seen dedup (s # ss) =
     (case stop_key rt s of
        Inl e \<Rightarrow> Inl e
      | Inr key \<Rightarrow>
          if key \<notin> seen then dedupe_loop rt (insert key seen) (dedup @ [s]) ss
          else dedupe_loop rt seen dedup ss)"

definition dedupe :: "js_runtime \<Rightarrow> StopPoint list \<Rightarrow> js_error + StopPoint list" where
  "dedupe rt stopPts = dedupe_loop rt {} [] stopPts"

text \<open>The stops whose key can be computed: all but those the optional call throws on.\<close>

definition has_key :: "js_runtime \<Rightarrow> StopPoint \<Rightarrow> bool" where
  "has_key rt s = (case stop_key rt s of Inl e \<Rightarrow> False | Inr key \<Rightarrow> True)"

text \<open>
  For the proofs: the elements of a list whose key, under a total key function, is
  neither in \<open>seen\<close> nor carried by an earlier element.
\<close>

fun firsts :: "('a \<Rightarrow> 'k) \<Rightarrow> 'k set \<Rightarrow> 'a list \<Rightarrow> 'a list" where
  "firsts k seen [] = []"
| "firsts k seen (s # ss) =
     (if k s \<in> seen then firsts k seen ss else s # firsts k (insert (k s) seen) ss)"

text \<open>
  An engine for the examples: numbers are printed as the engine prints the non-negative
  integers, which is all the examples use, and \<^verbatim>\<open>JSON.parse\<close> answers as V8 does on the
  two texts the examples parse.
\<close>

definition sample_runtime :: js_runtime where
  "sample_runtime =
     \<lparr>Number_toString = (\<lambda>x. dec (nat \<lfloor>x\<rfloor>)),
      Number_toFixed = (\<lambda>x d. dec (nat \<lfloor>x\<rfloor>) @ ''.'' @ replicate d (CHR ''0'')),
      JSON_parse = (\<lambda>t. if t = ''{}'' then Inr (JObj [])
         else Inl \<lparr>err_name = ''SyntaxError'',
                   err_message = ''Unexpected token < in JSON at position 0''\<rparr>)\<rparr>"

text \<open>The two stops of the spec's scenario.\<close>

definition stop_A :: StopPoint where
  "stop_A = \<lparr>station_id = Some 1, lat = JNum 39.75, lon = JNum (-104.85),
     name = JStr ''Stop A'', city = JUndefined, state = JUndefined, price = None,
     address = JUndefined, gallons_purchased = None, cost = None, mile_on_route = None\<rparr>"

definition stop_A_dup :: StopPoint where
  "stop_A_dup = stop_A\<lparr>name := JStr ''Stop A dup''\<rparr>"

section \<open>Outbound calls (api.ts)\<close>

text \<open>
  What the transport answers to a \<^verbatim>\<open>fetch\<close>: the promise is rejected (a network failure, or
  an \<^verbatim>\<open>AbortError\<close> after \<^verbatim>\<open>abort()\<close>), or a response arrives with its status; reading its
  body gives the text or is rejected in turn.
\<close>

datatype fetch_result =
    Rejected js_error
  | Response nat "js_error + string"

text \<open>\<^verbatim>\<open>res.ok\<close>.\<close>

definition ok :: "nat \<Rightarrow> bool" where
  "ok status = (200 \<le> status \<and> status \<le> 299)"

text \<open>
  \<^verbatim>\<open>planRoute\<close>, as a function of the transport's answer. The \<^verbatim>\<open>catch\<close> around
  \<^verbatim>\<open>JSON.parse\<close> drops the parser's error and throws its own, with \<^verbatim>\<open>text.slice(0, 200)\<close>.
\<close>

definition planRoute :: "js_runtime \<Rightarrow> fetch_result \<Rightarrow> js_error + jsval" where
  "planRoute rt fr =
     (case fr of
        Rejected e \<Rightarrow> Inl e
      | Response status body \<Rightarrow>
          (case body of
             Inl e \<Rightarrow> Inl e
           | Inr text \<Rightarrow>
               if \<not> ok status then
                 Inl (Error (''Request failed ('' @ dec status @ ''): '' @ text))
               else
                 (case JSON_parse rt text of
                    Inr v \<Rightarrow> Inr v
                  | Inl e \<Rightarrow> Inl (Error (''Invalid JSON response: '' @ take 200 text)))))"


text \<open>
  \<^verbatim>\<open>err?.message || String(err)\<close> for an exception object: its message, or, when that is
  empty, what \<^verbatim>\<open>Error.prototype.toString\<close> gives then, the name.
\<close>

definition error_text :: "js_error \<Rightarrow> string" where
  "error_text e = (if err_message e \<noteq> [] then err_message e else err_name e)"

section \<open>Location search (CityAutocomplete)\<close>


text \<open>The component's state that the callback writes.\<close>

record ac_state =
  ac_open :: bool
  ac_loading :: bool
  ac_error :: jsval
  ac_items :: "string list"

text \<open>The \<^verbatim>\<open>catch\<close> and \<^verbatim>\<open>finally\<close> blocks of the callback.\<close>

definition autocomplete_catch :: "js_error \<Rightarrow> ac_state \<Rightarrow> ac_state" where
  "autocomplete_catch err st =
     (if err_name err = ''AbortError'' then st\<lparr>ac_loading := False\<rparr>
      else st\<lparr>ac_error := JStr (error_text err), ac_items := [], ac_open := False,
              ac_loading := False\<rparr>)"

section \<open>Request Reconciler (App.tsx, \<^verbatim>\<open>onSubmit\<close>)\<close>

text \<open>
  The state of the component and its two refs. An \<^verbatim>\<open>AbortController\<close> is identified by
  the id of the request it was made for; \<open>aborted\<close> holds the controllers on which
  \<^verbatim>\<open>abort()\<close> has been called. \<^verbatim>\<open>error\<close> and \<^verbatim>\<open>summary\<close> are \<^verbatim>\<open>null\<close> or what was stored.
  The counter is a natural number: a double counts exactly far beyond any number of
  submissions.
\<close>

record app_state =
  start :: string
  finish :: string
  startEmpty :: bool
  loading :: bool
  error :: jsval
  route :: "raw_latlng list"
  stops :: "StopPoint list"
  summary :: jsval
  abortRef :: "nat option"
  aborted :: "nat set"
  reqIdRef :: nat

text \<open>
  \<^verbatim>\<open>onSubmit\<close> up to its \<^verbatim>\<open>await\<close>: the new state and the id of the request it issued, if it
  issued one.
\<close>

definition onSubmit :: "app_state \<Rightarrow> app_state \<times> nat option" where
  "onSubmit s =
     (let s1 = s\<lparr>error := JNull, summary := JNull, route := [], stops := []\<rparr> in
      if start s1 = [] \<or> finish s1 = [] then
        (s1\<lparr>error := JStr ''Please enter both Start and Finish.''\<rparr>, None)
      else
        let s2 = s1\<lparr>aborted := (case abortRef s1 of None \<Rightarrow> aborted s1
                                   | Some c \<Rightarrow> insert c (aborted s1))\<rparr>;
            myId = reqIdRef s2 + 1;
            s3 = s2\<lparr>abortRef := Some myId, reqIdRef := myId, loading := True\<rparr>
        in (s3, Some myId))"

text \<open>\<^verbatim>\<open>typeof v === 'number' ? v : undefined\<close>.\<close>

fun num_field :: "jsval \<Rightarrow> real option" where
  "num_field (JNum x) = Some x"
| "num_field v = None"

text \<open>
  \<^verbatim>\<open>typeof s.lat === 'number' ? s.lat : Array.isArray(s.coord) ? s.coord[i] : undefined\<close>.
\<close>

definition coord_field :: "jsval \<Rightarrow> string \<Rightarrow> nat \<Rightarrow> jsval" where
  "coord_field s k i =
     (if is_num (member s k) then member s k
      else if isArray (member s ''coord'') then elem (member s ''coord'') i
      else JUndefined)"

text \<open>The callback of \<^verbatim>\<open>res.stops.map\<close>; it throws on an element that is \<^verbatim>\<open>null\<close>.\<close>

definition to_StopPoint :: "jsval \<Rightarrow> js_error + StopPoint" where
  "to_StopPoint s =
     (case get s ''station_id'' of
        Inl e \<Rightarrow> Inl e
      | Inr sid \<Rightarrow>
          Inr \<lparr>station_id = num_field sid,
               lat = coord_field s ''lat'' 1,
               lon = coord_field s ''lon'' 0,
               name = member s ''name'',
               city = member s ''city'',
               state = member s ''state'',
               price = num_field (member s ''price''),
               address = member s ''address'',
               gallons_purchased = num_field (member s ''gallons_purchased''),
               cost = num_field (member s ''cost''),
               mile_on_route = num_field (member s ''mile_on_route'')\<rparr>)"

fun map_stops :: "jsval list \<Rightarrow> js_error + StopPoint list" where
  "map_stops [] = Inr []"
| "map_stops (s # ss) =
     (case to_StopPoint s of
        Inl e \<Rightarrow> Inl e
      | Inr p \<Rightarrow> (case map_stops ss of Inl e \<Rightarrow> Inl e | Inr ps \<Rightarrow> Inr (p # ps)))"

text \<open>\<^verbatim>\<open>Array.isArray(res.stops) ? res.stops.map(...) : []\<close>.\<close>

definition stop_points :: "jsval \<Rightarrow> js_error + StopPoint list" where
  "stop_points res = (case member res ''stops'' of JArr ss \<Rightarrow> map_stops ss | _ \<Rightarrow> Inr [])"

text \<open>\<^verbatim>\<open>res.route?.geometry\<close>, for a \<^verbatim>\<open>res\<close> that is not nullish.\<close>

definition route_geometry :: "jsval \<Rightarrow> jsval" where
  "route_geometry res =
     (case member res ''route'' of
        JUndefined \<Rightarrow> JUndefined
      | JNull \<Rightarrow> JUndefined
      | r \<Rightarrow> member r ''geometry'')"

text \<open>
  The \<^verbatim>\<open>try\<close> block after the \<^verbatim>\<open>await\<close>, for the response \<^verbatim>\<open>res\<close> of the request \<^verbatim>\<open>myId\<close>: the
  state it leaves, and the exception it throws, if any. The statements run in the
  source's order, so a state written before a throw stays written.
\<close>

definition try_body ::
  "js_runtime \<Rightarrow> nat \<Rightarrow> jsval \<Rightarrow> app_state \<Rightarrow> app_state \<times> js_error option" where
  "try_body rt myId res s =
     (case get res ''error'' of
        Inl e \<Rightarrow> (s, Some e)
      | Inr err \<Rightarrow>
          let s1 = (if truthy err then s\<lparr>error := err\<rparr> else s) in
          if reqIdRef s1 \<noteq> myId then (s1, None)
          else
            (case toLatLngs (route_geometry res) of
               Inl e \<Rightarrow> (s1, Some e)
             | Inr latlngs \<Rightarrow>
                 let s2 = s1\<lparr>route := latlngs\<rparr> in
                 (case stop_points res of
                    Inl e \<Rightarrow> (s2, Some e)
                  | Inr stopPts \<Rightarrow>
                      (case dedupe rt stopPts of
                         Inl e \<Rightarrow> (s2, Some e)
                       | Inr dedup \<Rightarrow>
                           (s2\<lparr>stops := dedup,
                               summary := (if truthy (member res ''summary'')
                                           then member res ''summary'' else JNull)\<rparr>,
                            None)))))"

text \<open>
  The continuation of \<^verbatim>\<open>onSubmit\<close> for the request \<^verbatim>\<open>myId\<close>, when the promise of
  \<^verbatim>\<open>planRoute\<close> settles with \<open>outcome\<close>: the \<^verbatim>\<open>try\<close> block, or nothing of it when the promise
  is rejected; then the \<^verbatim>\<open>catch\<close> block on what was thrown; then the \<^verbatim>\<open>finally\<close> block.
\<close>

definition resume :: "js_runtime \<Rightarrow> nat \<Rightarrow> js_error + jsval \<Rightarrow> app_state \<Rightarrow> app_state" where
  "resume rt myId outcome s =
     (let (s1, thrown) = (case outcome of Inl e \<Rightarrow> (s, Some e)
                          | Inr res \<Rightarrow> try_body rt myId res s);
          s2 = (case thrown of None \<Rightarrow> s1
                | Some e \<Rightarrow> s1\<lparr>error := JStr (error_text e)\<rparr>)
      in s2\<lparr>loading := False\<rparr>)"

text \<open>The component as mounted, with the form filled in.\<close>

definition initial :: "string \<Rightarrow> string \<Rightarrow> app_state" where
  "initial a b =
     \<lparr>start = a, finish = b, startEmpty = True, loading = False, error = JNull, route = [],
      stops = [], summary = JNull, abortRef = None, aborted = {}, reqIdRef = 0\<rparr>"

text \<open>The response of the spec's scenario.\<close>

definition scenario_response :: jsval where
  "scenario_response =
     JObj [(''route'', JObj [(''geometry'', JObj [(''type'', JStr ''LineString''),
              (''coordinates'', JArr [JArr [JNum (-104.9), JNum 39.7],
                                      JArr [JNum (-104.8), JNum 39.8]])])]),
           (''stops'', JArr [
              JObj [(''station_id'', JNum 1), (''lat'', JNum 39.75), (''lon'', JNum (-104.85)),
                    (''name'', JStr ''Stop A'')],
              JObj [(''station_id'', JNum 1), (''lat'', JNum 39.75), (''lon'', JNum (-104.85)),
                    (''name'', JStr ''Stop A dup'')]])]"

text \<open>
  The \<^verbatim>\<open>DOMException\<close> with which \<^verbatim>\<open>fetch\<close> rejects once \<^verbatim>\<open>abort()\<close> has been called on its
  signal. Its name is fixed by the standard; the message is an engine's.
\<close>

definition AbortError :: js_error where
  "AbortError = \<lparr>err_name = ''AbortError'', err_message = ''The user aborted a request.''\<rparr>"

text \<open>
  What the event loop can run on the component, in any order: an edit of the form, a
  submission, and the settlement of the promise of an issued request.
\<close>

datatype event =
    Edit string string bool
  | Submit
  | Settle nat "js_error + jsval"

fun handle :: "js_runtime \<Rightarrow> event \<Rightarrow> app_state \<Rightarrow> app_state" where
  "handle rt (Edit a b e) s = s\<lparr>start := a, finish := b, startEmpty := e\<rparr>"
| "handle rt Submit s = fst (onSubmit s)"
| "handle rt (Settle myId outcome) s = resume rt myId outcome s"

fun run :: "js_runtime \<Rightarrow> event list \<Rightarrow> app_state \<Rightarrow> app_state" where
  "run rt [] s = s"
| "run rt (e # es) s = run rt es (handle rt e s)"

text \<open>Two submissions of the filled-in form, the first request still pending.\<close>

definition two_submitted :: app_state where
  "two_submitted = run sample_runtime [Submit, Submit] (initial ''Denver, CO'' ''Kansas City, MO'')"

section \<open>Properties of the Geometry Normalizer\<close>

lemma push_points_filter: "push_points flat pts = flat @ filter is_point pts"
  by (induction pts arbitrary: flat) auto

lemma push_lines_concat:
  "push_lines flat lines = flat @ filter is_point (concat (map items lines))"
proof (induction lines arbitrary: flat)
  case Nil
  show ?case by simp
next
  case (Cons line lines)
  show ?case
    by (cases line) (simp_all add: Cons.IH push_points_filter)
qed

lemma toLatLngs_payload:
  "toLatLngs (payload cs) = Inr (map swap_point (filter is_point (source_points cs)))"
proof (cases "cs = []")
  case True
  then show ?thesis
    by (simp add: toLatLngs_def payload_def source_points_def multi_part_def)
next
  case False
  then show ?thesis
    by (simp add: toLatLngs_def payload_def source_points_def multi_part_def
        push_lines_concat Let_def)
qed

text \<open>
  C5. \<^verbatim>\<open>toLatLngs(undefined)\<close> and \<^verbatim>\<open>toLatLngs({})\<close> both return the empty route, not an
  error.
\<close>

theorem toLatLngs_absent_empty:
  "toLatLngs JUndefined = Inr [] \<and> toLatLngs (JObj []) = Inr []"
  by (simp add: toLatLngs_def)

theorem toLatLngs_absent_empty_witness:
  "toLatLngs (JObj []) = Inr []"
  by (rule conjunct2 [OF toLatLngs_absent_empty])

text \<open>
  C4, as the spec states it: the route has one point for each source point with at least
  two numeric components. The code tests the arity only. The payload
  \<^verbatim>\<open>[[1, null]]\<close> has no point with two numeric components, and the code returns the
  one-point route \<^verbatim>\<open>[[null, 1]]\<close>.
\<close>

theorem toLatLngs_keeps_non_numeric_point:
  "toLatLngs (payload [JArr [JNum 1, JNull]]) = Inr [(JNull, JNum 1)]
   \<and> length (filter numeric_point (source_points [JArr [JNum 1, JNull]])) = 0"
  by (simp add: toLatLngs_def payload_def source_points_def multi_part_def numeric_point_def
      swap_point_def)

text \<open>
  C4, amended. For every payload whose coordinates are a list (flat, or multi-part by the
  shape of its first element), \<^verbatim>\<open>toLatLngs\<close> returns a route with one point for each
  source point that is a sequence of at least two components, of any kind, in the
  source's order, and each point of the route is the source point's first two components
  swapped. Where every such source point has numeric components, the length is the
  number of points with at least two numeric components.
\<close>

theorem toLatLngs_counts_points:
  "\<exists>r. toLatLngs (payload cs) = Inr r
     \<and> length r = length (filter is_point (source_points cs))
     \<and> (\<forall>i < length r. r ! i = (elem (filter is_point (source_points cs) ! i) 1,
                                  elem (filter is_point (source_points cs) ! i) 0))
     \<and> ((\<forall>pt \<in> set (source_points cs). is_point pt \<longrightarrow> numeric_point pt)
          \<longrightarrow> length r = length (filter numeric_point (source_points cs)))"
proof -
  let ?ps = "filter is_point (source_points cs)"
  have same: "(\<forall>pt \<in> set (source_points cs). is_point pt \<longrightarrow> numeric_point pt)
      \<Longrightarrow> filter numeric_point (source_points cs) = ?ps"
    by (rule filter_cong) (auto simp: numeric_point_def)
  show ?thesis
    by (rule exI [of _ "map swap_point ?ps"]) (simp add: toLatLngs_payload swap_point_def same)
qed

theorem toLatLngs_counts_points_witness:
  "\<exists>r. toLatLngs (payload [JArr [JNum (-104.9), JNum 39.7], JArr [JNum (-104.8)],
          JArr [JNum (-104.8), JNum 39.8]]) = Inr r
      \<and> length r = 2 \<and> r ! 0 = (JNum 39.7, JNum (-104.9))"
proof -
  let ?cs = "[JArr [JNum (-104.9), JNum 39.7], JArr [JNum (-104.8)],
    JArr [JNum (-104.8), JNum 39.8]]"
  have sp: "filter is_point (source_points ?cs)
      = [JArr [JNum (-104.9), JNum 39.7], JArr [JNum (-104.8), JNum 39.8]]"
    by (simp add: source_points_def multi_part_def)
  from toLatLngs_counts_points [of ?cs] obtain r where
    r: "toLatLngs (payload ?cs) = Inr r"
      "length r = length (filter is_point (source_points ?cs))"
      "\<forall>i < length r. r ! i = (elem (filter is_point (source_points ?cs) ! i) 1,
                                  elem (filter is_point (source_points ?cs) ! i) 0)"
    by blast
  from r(2) have len: "length r = 2" by (simp only: sp) simp
  with r(3) have "r ! 0 = (elem (filter is_point (source_points ?cs) ! 0) 1,
                           elem (filter is_point (source_points ?cs) ! 0) 0)" by simp
  then have "r ! 0 = (JNum 39.7, JNum (-104.9))" by (simp only: sp) simp
  with r(1) len show ?thesis by blast
qed

section \<open>Properties of the Segment Classifier\<close>

lemma glue_snoc: "ss \<noteq> [] \<Longrightarrow> glue (ss @ [s]) = glue ss @ tl s"
  by (cases ss) simp_all

lemma chained_snoc: "ss \<noteq> [] \<Longrightarrow> chained (ss @ [s]) = (chained ss \<and> last (last ss) = hd s)"
  by (induction ss rule: chained.induct) auto

lemma alt_snoc: "ls \<noteq> [] \<Longrightarrow> alt (ls @ [b]) = (alt ls \<and> last ls \<noteq> b)"
  by (induction ls rule: alt.induct) auto

lemma weave_alt:
  "alt (map fst E) \<Longrightarrow> (E \<noteq> [] \<longrightarrow> fst (hd E) = l) \<Longrightarrow>
   (if l then weave (greens E) (reds E) else weave (reds E) (greens E)) = map snd E"
proof (induction E rule: induct_list012)
  case 1
  show ?case by (simp add: greens_def reds_def)
next
  case (2 x)
  then show ?case by (simp add: greens_def reds_def)
next
  case (3 x y zs)
  from 3(3) have xy: "fst x \<noteq> fst y" and a: "alt (map fst (y # zs))" by simp_all
  from a have az: "alt (map fst zs)" by (cases zs) simp_all
  from a xy have hz: "zs \<noteq> [] \<longrightarrow> fst (hd zs) = fst x" by (cases zs) auto
  from 3(4) have l: "fst x = l" by simp
  from 3(1) [OF az] hz l
  have IH: "(if l then weave (greens zs) (reds zs) else weave (reds zs) (greens zs)) = map snd zs"
    by simp
  from xy l IH show ?case
    by (auto simp: greens_def reds_def split: if_splits)
qed



lemma invD:
  assumes "inv f P E st"
  shows "greenSegments st = greens E" "redSegments st = reds E"
    "alt (map fst E @ [currentIsGreen st])" "\<forall>e \<in> set E. 2 \<le> length (snd e)"
    "current st \<noteq> []" "glue (map snd E @ [current st]) = P"
    "chained (map snd E @ [current st])" "last (current st) = last P"
    "E \<noteq> [] \<Longrightarrow> 2 \<le> length (current st)"
    "2 \<le> length P \<Longrightarrow> hd (map fst E @ [currentIsGreen st]) = f (P ! 1)"
  using assms by (simp_all add: inv_def)

lemma step_same:
  assumes i: "inv f P E st" and "P \<noteq> []" and same: "f pt = currentIsGreen st"
  shows "inv f (P @ [pt]) E (step (f pt) (last P) pt st)"
proof -
  note d = invD [OF i]
  have st': "step (f pt) (last P) pt st = st\<lparr>current := current st @ [pt]\<rparr>"
    using same by (simp add: step_def)
  have g: "glue (map snd E @ [current st @ [pt]]) = P @ [pt]"
  proof (cases "E = []")
    case True
    with d(6) show ?thesis by simp
  next
    case False
    then have "glue (map snd E @ [current st @ [pt]]) = glue (map snd E) @ tl (current st @ [pt])"
      by (simp add: glue_snoc)
    also have "\<dots> = (glue (map snd E) @ tl (current st)) @ [pt]"
      using d(5) by simp
    also have "glue (map snd E) @ tl (current st) = P"
      using d(6) False by (simp add: glue_snoc)
    finally show ?thesis .
  qed
  have c: "chained (map snd E @ [current st @ [pt]])"
  proof (cases "E = []")
    case True
    then show ?thesis by simp
  next
    case False
    with d(7) d(5) show ?thesis by (simp add: chained_snoc)
  qed
  have h: "2 \<le> length (P @ [pt]) \<Longrightarrow> hd (map fst E @ [currentIsGreen st]) = f ((P @ [pt]) ! 1)"
  proof (cases "2 \<le> length P")
    case True
    with d(10) show ?thesis by (simp add: nth_append)
  next
    case False
    moreover from \<open>P \<noteq> []\<close> have "0 < length P" by simp
    ultimately have l1: "length P = 1" by arith
    have "E = []"
    proof (rule ccontr)
      assume ne: "E \<noteq> []"
      then have "glue (map snd E @ [current st]) = glue (map snd E) @ tl (current st)"
        by (simp add: glue_snoc)
      moreover from ne obtain e E2 where E: "E = e # E2" by (cases E) auto
      moreover from d(4) E have "2 \<le> length (snd e)" by simp
      ultimately have "2 \<le> length (glue (map snd E @ [current st]))" by simp
      with d(6) l1 show False by simp
    qed
    with same l1 show ?thesis by (simp add: nth_append)
  qed
  from d(5) have n: "Suc 0 \<le> length (current st)" by (cases "current st") simp_all
  show ?thesis
    unfolding st' inv_def using d(1-5) g c h n by simp
qed


lemma inv_long:
  assumes i: "inv f P E st" and l: "E \<noteq> [] \<or> 2 \<le> length (current st)"
  shows "2 \<le> length P"
proof (cases E)
  case Nil
  with invD(6) [OF i] l show ?thesis by auto
next
  case (Cons e E2)
  with invD(4) [OF i] have "2 \<le> length (snd e)" by simp
  moreover from Cons invD(6) [OF i] have "P = snd e @ concat (map tl (map snd E2 @ [current st]))"
    by simp
  ultimately show ?thesis by simp
qed

lemma greens_snoc: "greens (E @ [(g, c)]) = (if g then greens E @ [c] else greens E)"
  by (simp add: greens_def)

lemma reds_snoc: "reds (E @ [(g, c)]) = (if g then reds E else reds E @ [c])"
  by (simp add: reds_def)

lemma step_change_long:
  assumes i: "inv f P E st" and "P \<noteq> []" and diff: "f pt \<noteq> currentIsGreen st"
    and long: "1 < length (current st)"
  shows "inv f (P @ [pt]) (E @ [(currentIsGreen st, current st)]) (step (f pt) (last P) pt st)"
proof -
  note d = invD [OF i]
  let ?g = "currentIsGreen st" and ?c = "current st"
  have st': "step (f pt) (last P) pt st =
      st\<lparr>greenSegments := greens (E @ [(?g, ?c)]), redSegments := reds (E @ [(?g, ?c)]),
         current := [last P, pt], currentIsGreen := f pt\<rparr>"
    using diff long d(1,2) by (simp add: step_def push_current_def greens_snoc reds_snoc)
  have P2: "2 \<le> length P" using inv_long [OF i] long by simp
  have a: "alt (map fst (E @ [(?g, ?c)]) @ [f pt])"
    using alt_snoc [of "map fst E @ [?g]" "f pt"] d(3) diff by simp
  have l: "\<forall>e \<in> set (E @ [(?g, ?c)]). 2 \<le> length (snd e)"
    using d(4) long by simp
  have g: "glue (map snd (E @ [(?g, ?c)]) @ [[last P, pt]]) = P @ [pt]"
    using glue_snoc [of "map snd E @ [?c]" "[last P, pt]"] d(6) by simp
  have c: "chained (map snd (E @ [(?g, ?c)]) @ [[last P, pt]])"
    using chained_snoc [of "map snd E @ [?c]" "[last P, pt]"] d(7,8) by simp
  have h: "hd (map fst (E @ [(?g, ?c)]) @ [f pt]) = f ((P @ [pt]) ! 1)"
  proof -
    have "hd (map fst (E @ [(?g, ?c)]) @ [f pt]) = hd (map fst E @ [?g])"
      by (cases E) simp_all
    with d(10) [OF P2] P2 show ?thesis by (simp add: nth_append)
  qed
  show ?thesis
    unfolding st' inv_def using a l g c h by simp
qed

lemma step_change_short:
  assumes i: "inv f P E st" and "P \<noteq> []" and diff: "f pt \<noteq> currentIsGreen st"
    and short: "\<not> 1 < length (current st)"
  shows "inv f (P @ [pt]) [] (step (f pt) (last P) pt st)"
proof -
  note d = invD [OF i]
  from d(9) short have e: "E = []" by auto
  from d(5) short obtain x where c: "current st = [x]"
    by (cases "current st") auto
  with d(6) e have P: "P = [x]" by simp
  have st': "step (f pt) (last P) pt st = st\<lparr>current := [x, pt], currentIsGreen := f pt\<rparr>"
    using diff c P by (simp add: step_def push_current_def)
  show ?thesis
    unfolding st' inv_def using d(1,2) e P by (simp add: greens_def reds_def)
qed

lemma step_inv:
  assumes "inv f P E st" and "P \<noteq> []"
  shows "\<exists>E'. inv f (P @ [pt]) E' (step (f pt) (last P) pt st)"
  using step_same [OF assms] step_change_long [OF assms] step_change_short [OF assms]
  by blast

lemma walk_inv:
  "inv f P E st \<Longrightarrow> P \<noteq> [] \<Longrightarrow> \<exists>E'. inv f (P @ rest) E' (walk f (last P) rest st)"
proof (induction rest arbitrary: P E st)
  case Nil
  then show ?case by auto
next
  case (Cons pt rest)
  from step_inv [OF Cons.prems] obtain E1 where
    "inv f (P @ [pt]) E1 (step (f pt) (last P) pt st)" ..
  from Cons.IH [OF this] show ?case by simp
qed

text \<open>What the walk and the final push produce, for a detour of at least two points.\<close>

lemma walk_runs:
  assumes "rest \<noteq> []"
    and st0_def: "st0 = \<lparr>current = [pt], currentIsGreen = f pt, greenSegments = [], redSegments = []\<rparr>"
    and st_def: "st = push_current (walk f pt rest st0)"
  shows "\<exists>E. greenSegments st = greens E \<and> redSegments st = reds E \<and> E \<noteq> []
      \<and> alt (map fst E) \<and> (\<forall>e \<in> set E. 2 \<le> length (snd e))
      \<and> glue (map snd E) = pt # rest \<and> chained (map snd E) \<and> fst (hd E) = f (hd rest)"
proof -
  have "inv f [pt] [] st0" by (simp add: inv_def st0_def greens_def reds_def)
  from walk_inv [OF this, of rest] obtain E where i: "inv f (pt # rest) E (walk f pt rest st0)"
    by auto
  let ?w = "walk f pt rest st0"
  note d = invD [OF i]
  have long: "1 < length (current ?w)"
  proof (cases "E = []")
    case True
    with d(6) assms(1) show ?thesis by (cases rest) auto
  next
    case False
    with d(9) show ?thesis by simp
  qed
  let ?E = "E @ [(currentIsGreen ?w, current ?w)]"
  have "greenSegments st = greens ?E" "redSegments st = reds ?E"
    using long d(1,2) by (simp_all add: st_def push_current_def greens_snoc reds_snoc)
  moreover have "alt (map fst ?E)" using d(3) by simp
  moreover have "\<forall>e \<in> set ?E. 2 \<le> length (snd e)" using d(4) long by simp
  moreover have "glue (map snd ?E) = pt # rest" using d(6) by simp
  moreover have "chained (map snd ?E)" using d(7) by simp
  moreover have "fst (hd ?E) = f (hd rest)"
  proof -
    have "fst (hd ?E) = hd (map fst E @ [currentIsGreen ?w])" by (cases E) simp_all
    with d(10) assms(1) show ?thesis by (cases rest) simp_all
  qed
  ultimately show ?thesis by blast
qed


lemma segments_usable:
  assumes "1 < length base" and "rest \<noteq> []"
  shows "classify base (pt # rest) =
    (let st = push_current (walk (near (Some base)) pt rest
        \<lparr>current = [pt], currentIsGreen = near (Some base) pt,
         greenSegments = [], redSegments = []\<rparr>)
     in (greenSegments st, redSegments st))"
  using assms by (simp add: classify_def segments_def usable_def Let_def)

lemma classify_degenerate:
  assumes "\<not> (1 < length base \<and> 1 < length detour)"
  shows "classify base detour = ([], [])"
  using assms by (auto simp: classify_def segments_def usable_def Let_def split: list.splits)

lemma classify_runs:
  assumes b: "1 < length base" and d: "1 < length detour"
  shows "\<exists>E. classify base detour = (greens E, reds E) \<and> E \<noteq> []
      \<and> alt (map fst E) \<and> (\<forall>e \<in> set E. 2 \<le> length (snd e))
      \<and> glue (map snd E) = detour \<and> chained (map snd E)
      \<and> fst (hd E) = second_near base detour"
proof -
  from d obtain pt p1 ps where det: "detour = pt # p1 # ps"
    by (cases detour; cases "tl detour") auto
  let ?st = "push_current (walk (near (Some base)) pt (p1 # ps)
        \<lparr>current = [pt], currentIsGreen = near (Some base) pt,
         greenSegments = [], redSegments = []\<rparr>)"
  have c: "classify base detour = (greenSegments ?st, redSegments ?st)"
    using segments_usable [OF b, of "p1 # ps" pt] det by (simp add: Let_def)
  from walk_runs [of "p1 # ps" _ pt "near (Some base)" ?st, OF _ refl refl]
  obtain E where "greenSegments ?st = greens E" "redSegments ?st = reds E" "E \<noteq> []"
      "alt (map fst E)" "\<forall>e \<in> set E. 2 \<le> length (snd e)"
      "glue (map snd E) = pt # p1 # ps" "chained (map snd E)"
      "fst (hd E) = near (Some base) (hd (p1 # ps))"
    by auto
  with c det show ?thesis by auto
qed

lemma in_order_runs:
  assumes "classify base detour = (greens E, reds E)" and "alt (map fst E)"
    and "E \<noteq> [] \<longrightarrow> fst (hd E) = second_near base detour"
  shows "in_order base detour = map snd E"
  using weave_alt [OF assms(2,3)] assms(1) by (auto simp: in_order_def split: if_splits)

lemma set_runs: "set (map snd E) = set (greens E) \<union> set (reds E)"
  by (auto simp: greens_def reds_def)

lemma set_glue: "set (glue ss) \<subseteq> \<Union> (set ` set ss)"
proof (cases ss)
  case Nil
  then show ?thesis by simp
next
  case (Cons s ss')
  have "set (tl t) \<subseteq> set t" for t :: "'a list" by (cases t) auto
  with Cons show ?thesis by fastforce
qed

text \<open>
  C7. Every segment \<^verbatim>\<open>classify\<close> returns, in either list, has at least two points; in the
  order of the detour each emitted segment ends on the point the next one starts with;
  and at a change of classification the new run is seeded with the previous point and
  the current one.
\<close>

theorem classify_segments_drawable:
  "(\<forall>seg \<in> set (fst (classify base detour)) \<union> set (snd (classify base detour)).
       2 \<le> length seg)
   \<and> chained (in_order base detour)
   \<and> (nr \<noteq> currentIsGreen st \<longrightarrow> current (step nr prev pt st) = [prev, pt])"
proof (cases "1 < length base \<and> 1 < length detour")
  case True
  from classify_runs [of base detour] True obtain E where
    E: "classify base detour = (greens E, reds E)" "E \<noteq> []" "alt (map fst E)"
      "\<forall>e \<in> set E. 2 \<le> length (snd e)" "chained (map snd E)"
      "fst (hd E) = second_near base detour"
    by blast
  from in_order_runs [OF E(1) E(3)] E(6) have "in_order base detour = map snd E" by simp
  with E(5) have "chained (in_order base detour)" by simp
  moreover from E(4) have "\<forall>seg \<in> set (greens E) \<union> set (reds E). 2 \<le> length seg"
    unfolding set_runs [symmetric] by simp
  ultimately show ?thesis using E(1) by (simp add: step_def)
next
  case False
  from classify_degenerate [OF False] show ?thesis
    by (simp add: in_order_def step_def)
qed

text \<open>
  C10. When base and detour both have at least two points, the emitted segments, taken in
  their order along the detour and joined with the shared point of each junction
  dropped, are the detour exactly, and every point of the detour lies in some emitted
  segment.
\<close>

theorem classify_covers_detour:
  assumes "2 \<le> length base" and "2 \<le> length detour"
  shows "glue (in_order base detour) = detour
    \<and> (\<forall>p \<in> set detour. \<exists>seg \<in> set (fst (classify base detour)) \<union> set (snd (classify base detour)).
          p \<in> set seg)"
proof -
  from classify_runs [of base detour] assms obtain E where
    E: "classify base detour = (greens E, reds E)" "E \<noteq> []" "alt (map fst E)"
      "glue (map snd E) = detour" "fst (hd E) = second_near base detour"
    by auto
  from in_order_runs [OF E(1) E(3)] E(5) have o: "in_order base detour = map snd E" by simp
  have "set detour \<subseteq> \<Union> (set ` (set (greens E) \<union> set (reds E)))"
    using set_glue [of "map snd E"] E(4) unfolding set_runs [symmetric] by simp
  with o E(1,4) show ?thesis by auto
qed

lemma minDist2_loop_le:
  "num_le best t \<Longrightarrow> num_le (minDist2_loop p bs best) t"
proof (induction bs arbitrary: best)
  case Nil
  then show ?case by simp
next
  case (Cons b bs)
  have "num_le (if less_num (dist2 p b) best then Fin (dist2 p b) else best) t"
    using Cons.prems by (cases best) auto
  from Cons.IH [OF this] show ?case by (simp add: Let_def)
qed

lemma minDist2_loop_mem:
  "b \<in> set bs \<Longrightarrow> dist2 p b \<le> t \<Longrightarrow> num_le (minDist2_loop p bs best) t"
proof (induction bs arbitrary: best)
  case Nil
  then show ?case by simp
next
  case (Cons a bs)
  show ?case
  proof (cases "b = a")
    case True
    have "num_le (if less_num (dist2 p a) best then Fin (dist2 p a) else best) t"
      using Cons.prems(2) True by (cases best) auto
    from minDist2_loop_le [OF this] show ?thesis by (simp add: Let_def)
  next
    case False
    with Cons.prems have "b \<in> set bs" by simp
    from Cons.IH [OF this Cons.prems(2)] show ?thesis by (simp add: Let_def)
  qed
qed

lemma near_self: "p \<in> set r \<Longrightarrow> near (Some r) p"
  using minDist2_loop_mem [of p r p GREEN_THRESHOLD_DEG2 POSITIVE_INFINITY]
  by (simp add: near_def minDist2ToBase_def dist2_def GREEN_THRESHOLD_DEG2_def)

lemma walk_all_same:
  "\<forall>p \<in> set rest. f p = currentIsGreen st \<Longrightarrow>
   walk f prev rest st = st\<lparr>current := current st @ rest\<rparr>"
proof (induction rest arbitrary: prev st)
  case Nil
  show ?case by simp
next
  case (Cons pt rest)
  then have s: "step (f pt) prev pt st = st\<lparr>current := current st @ [pt]\<rparr>"
    by (simp add: step_def)
  from Cons.prems have "\<forall>p \<in> set rest. f p = currentIsGreen (st\<lparr>current := current st @ [pt]\<rparr>)"
    by simp
  from Cons.IH [OF this] s show ?case by simp
qed

text \<open>
  C6, amended. For a route of at least two points passed as both base and detour,
  \<^verbatim>\<open>classify\<close> returns the whole route as its only on-route segment, and no detour
  segment; for a route of fewer than two points it returns no segment at all.
\<close>

theorem classify_same_route:
  "classify r r = (if 2 \<le> length r then ([r], []) else ([], []))"
proof (cases "2 \<le> length r")
  case True
  then obtain pt rest where r: "r = pt # rest" and rest: "rest \<noteq> []"
    by (cases r; cases "tl r") auto
  let ?st0 = "\<lparr>current = [pt], currentIsGreen = near (Some r) pt,
         greenSegments = [], redSegments = []\<rparr>"
  have n: "\<forall>p \<in> set r. near (Some r) p" by (simp add: near_self)
  with r have "\<forall>p \<in> set rest. near (Some r) p = currentIsGreen ?st0" by simp
  from walk_all_same [OF this]
  have w: "walk (near (Some r)) pt rest ?st0 = ?st0\<lparr>current := pt # rest\<rparr>" by simp
  from True have "1 < length r" by simp
  from segments_usable [OF this rest, of pt]
  have "classify r (pt # rest) =
      (let st = push_current (?st0\<lparr>current := pt # rest\<rparr>) in (greenSegments st, redSegments st))"
    unfolding w .
  moreover from n r have "near (Some r) pt" by simp
  ultimately have "classify r (pt # rest) = ([pt # rest], [])"
    using rest by (simp add: push_current_def)
  then have "classify r r = ([r], [])" unfolding r .
  with True show ?thesis by simp
next
  case False
  then have "\<not> (1 < length r \<and> 1 < length r)" by simp
  from classify_degenerate [OF this] False show ?thesis by simp
qed

text \<open>
  C6, as the spec states it, for any route: a route of one point is below the guard
  \<^verbatim>\<open>length > 1\<close>, and no segment at all is returned for it.
\<close>

theorem classify_single_point_route:
  "classify [(0, 0)] [(0, 0)] = ([], []) \<and> classify [(0, 0)] [(0, 0)] \<noteq> ([[(0, 0)]], [])"
  by (simp add: classify_def segments_def usable_def)


lemma in_order_example:
  "in_order [(0, 0), (1, 1)] [(0, 0), (0, 1), (1, 1), (2, 2)]
      = [[(0, 0), (0, 1)], [(0, 1), (1, 1)], [(1, 1), (2, 2)]]"
  by (simp add: in_order_def classify_def segments_def usable_def near_def minDist2ToBase_def
      dist2_def GREEN_THRESHOLD_DEG2_def step_def push_current_def Let_def)

theorem classify_same_route_witness:
  "classify [(0, 0), (1, 1)] [(0, 0), (1, 1)] = ([[(0, 0), (1, 1)]], [])"
  using classify_same_route [of "[(0, 0), (1, 1)]"] by simp

theorem classify_segments_drawable_witness:
  "chained (in_order [(0, 0), (1, 1)] [(0, 0), (0, 1), (1, 1), (2, 2)])
  \<and> in_order [(0, 0), (1, 1)] [(0, 0), (0, 1), (1, 1), (2, 2)]
      = [[(0, 0), (0, 1)], [(0, 1), (1, 1)], [(1, 1), (2, 2)]]
  \<and> current (step False (0, 0) (0, 1)
       \<lparr>current = [(0, 0)], currentIsGreen = True, greenSegments = [], redSegments = []\<rparr>)
      = [(0, 0), (0, 1)]"
  using classify_segments_drawable [of "[(0, 0), (1, 1)]" "[(0, 0), (0, 1), (1, 1), (2, 2)]"
      False "\<lparr>current = [(0, 0)], currentIsGreen = True, greenSegments = [], redSegments = []\<rparr>"
      "(0, 0)" "(0, 1)"]
    in_order_example
  by simp

theorem classify_covers_detour_witness:
  "2 \<le> length [(0::real, 0::real), (1, 1)]
  \<and> 2 \<le> length [(0::real, 0::real), (0, 1), (1, 1), (2, 2)]
  \<and> glue (in_order [(0, 0), (1, 1)] [(0, 0), (0, 1), (1, 1), (2, 2)])
      = [(0, 0), (0, 1), (1, 1), (2, 2)]"
  using classify_covers_detour [of "[(0, 0), (1, 1)]" "[(0, 0), (0, 1), (1, 1), (2, 2)]"]
  by simp

section \<open>Properties of the Stop Deduplicator\<close>

lemma firsts_length: "length (firsts k seen xs) \<le> length xs"
  by (induction xs arbitrary: seen) (auto simp: le_SucI)

lemma firsts_subseq: "subseq (firsts k seen xs) xs"
  by (induction xs arbitrary: seen) auto

lemma firsts_set: "set (firsts k seen xs) \<subseteq> set xs"
  by (induction xs arbitrary: seen) auto

lemma firsts_keys: "k ` set (firsts k seen xs) \<inter> seen = {}"
  by (induction xs arbitrary: seen) auto

lemma firsts_distinct: "distinct (map k (firsts k seen xs))"
proof (induction xs arbitrary: seen)
  case Nil
  show ?case by simp
next
  case (Cons s ss)
  from firsts_keys [of k "insert (k s) seen" ss] Cons.IH show ?case by auto
qed

lemma firsts_idem: "firsts k seen (firsts k seen xs) = firsts k seen xs"
  by (induction xs arbitrary: seen) auto

lemma firsts_find:
  "s \<in> set xs \<Longrightarrow> k s \<notin> seen \<Longrightarrow>
   find (\<lambda>t. k t = k s) (firsts k seen xs) = find (\<lambda>t. k t = k s) xs"
  by (induction xs arbitrary: seen) auto

lemma dedupe_loop_firsts:
  "\<forall>s \<in> set xs. has_key rt s \<Longrightarrow>
   dedupe_loop rt seen acc xs = Inr (acc @ firsts (\<lambda>s. projr (stop_key rt s)) seen xs)"
proof (induction xs arbitrary: seen acc)
  case Nil
  show ?case by simp
next
  case (Cons s ss)
  from Cons.prems obtain key where k: "stop_key rt s = Inr key"
    by (auto simp: has_key_def split: sum.splits)
  from Cons.prems have "\<forall>s \<in> set ss. has_key rt s" by simp
  note IH = Cons.IH [OF this]
  show ?case by (simp add: k IH)
qed

lemma has_key_eq:
  assumes "has_key rt s" and "has_key rt t"
  shows "(stop_key rt t = stop_key rt s) = (projr (stop_key rt t) = projr (stop_key rt s))"
  using assms by (auto simp: has_key_def split: sum.splits)

text \<open>
  C8. For every list of stops whose keys can be computed, \<^verbatim>\<open>dedupe\<close> returns a list on
  which it changes nothing more (idempotence), that is no longer than its input, that is
  a subsequence of it (the order is kept), whose keys are pairwise distinct, and in
  which the stop kept for a key is the first stop of the input with that key.
\<close>

theorem dedupe_idempotent_first_wins:
  assumes "\<forall>s \<in> set x. has_key rt s"
  shows "\<exists>y. dedupe rt x = Inr y \<and> dedupe rt y = Inr y \<and> length y \<le> length x
    \<and> subseq y x \<and> distinct (map (stop_key rt) y)
    \<and> (\<forall>s \<in> set x. find (\<lambda>t. stop_key rt t = stop_key rt s) y
                     = find (\<lambda>t. stop_key rt t = stop_key rt s) x)"
proof -
  let ?k = "\<lambda>s. projr (stop_key rt s)"
  let ?y = "firsts ?k {} x"
  have sub: "set ?y \<subseteq> set x" by (rule firsts_set)
  with assms have ky: "\<forall>s \<in> set ?y. has_key rt s" by auto
  have d: "dedupe rt x = Inr ?y"
    using dedupe_loop_firsts [OF assms, of "{}" "[]"] by (simp add: dedupe_def)
  have i: "dedupe rt ?y = Inr ?y"
    using dedupe_loop_firsts [OF ky, of "{}" "[]"] by (simp add: dedupe_def firsts_idem)
  have dist: "distinct (map (stop_key rt) ?y)"
    using firsts_distinct [of ?k "{}" x] by (auto simp: distinct_map inj_on_def)
  have f: "find (\<lambda>t. stop_key rt t = stop_key rt s) ?y
      = find (\<lambda>t. stop_key rt t = stop_key rt s) x" if s: "s \<in> set x" for s
  proof -
    from s assms have hs: "has_key rt s" by simp
    have "find (\<lambda>t. stop_key rt t = stop_key rt s) ?y = find (\<lambda>t. ?k t = ?k s) ?y"
      using ky hs by (intro find_cong refl) (simp add: has_key_eq)
    also have "\<dots> = find (\<lambda>t. ?k t = ?k s) x"
      using firsts_find [of s x ?k "{}"] s by simp
    also have "\<dots> = find (\<lambda>t. stop_key rt t = stop_key rt s) x"
      using assms hs by (intro find_cong refl) (simp add: has_key_eq)
    finally show ?thesis .
  qed
  from d i dist f firsts_length [of ?k "{}" x] firsts_subseq [of ?k "{}" x]
  show ?thesis by blast
qed

lemma sample_dedupe: "dedupe sample_runtime [stop_A, stop_A_dup] = Inr [stop_A]"
  by (simp add: dedupe_def stop_key_def stop_A_def stop_A_dup_def)

theorem dedupe_idempotent_first_wins_witness:
  "(\<exists>y. dedupe sample_runtime [stop_A, stop_A_dup] = Inr y \<and> dedupe sample_runtime y = Inr y
      \<and> length y \<le> 2 \<and> subseq y [stop_A, stop_A_dup])
   \<and> dedupe sample_runtime [stop_A, stop_A_dup] = Inr [stop_A]"
proof -
  have "\<forall>s \<in> set [stop_A, stop_A_dup]. has_key sample_runtime s"
    by (simp add: has_key_def stop_key_def stop_A_def stop_A_dup_def)
  from dedupe_idempotent_first_wins [OF this] sample_dedupe show ?thesis by auto
qed

section \<open>Properties of the outbound calls\<close>

lemma dec_500: "dec 500 = ''500''"
  by code_simp




section \<open>Properties of the Request Reconciler\<close>

lemma resume_reqIdRef: "reqIdRef (resume rt myId outcome s) = reqIdRef s"
  by (simp add: resume_def try_body_def Let_def split: sum.splits option.splits prod.splits)

lemma onSubmit_reqIdRef: "reqIdRef s \<le> reqIdRef (fst (onSubmit s))"
  by (simp add: onSubmit_def Let_def)

lemma handle_reqIdRef: "reqIdRef s \<le> reqIdRef (handle rt e s)"
  by (cases e) (simp_all add: resume_reqIdRef onSubmit_reqIdRef)

lemma run_reqIdRef: "reqIdRef s \<le> reqIdRef (run rt es s)"
proof (induction es arbitrary: s)
  case Nil
  show ?case by simp
next
  case (Cons e es)
  from handle_reqIdRef [of s rt e] Cons.IH [of "handle rt e s"] show ?case by simp
qed

lemma onSubmit_issues:
  assumes "onSubmit s = (s', Some myId)"
  shows "myId = reqIdRef s + 1" and "reqIdRef s' = myId"
  using assms by (auto simp: onSubmit_def Let_def split: if_splits)

lemma try_body_stale:
  assumes "reqIdRef s \<noteq> myId" and "try_body rt myId res s = (s', thrown)"
  shows "route s' = route s \<and> stops s' = stops s \<and> summary s' = summary s"
  using assms by (auto simp: try_body_def Let_def split: sum.splits if_splits)

lemma resume_stale:
  assumes "reqIdRef s \<noteq> myId"
  shows "route (resume rt myId outcome s) = route s
    \<and> stops (resume rt myId outcome s) = stops s
    \<and> summary (resume rt myId outcome s) = summary s"
proof (cases outcome)
  case (Inl e)
  then show ?thesis by (simp add: resume_def)
next
  case (Inr res)
  obtain s' thrown where t: "try_body rt myId res s = (s', thrown)" by (cases "try_body rt myId res s")
  from try_body_stale [OF assms t] Inr t show ?thesis
    by (simp add: resume_def split: option.splits)
qed

lemma resume_commits:
  assumes "reqIdRef s = myId" and "get res ''error'' = Inr e"
    and "toLatLngs (route_geometry res) = Inr ll" and "stop_points res = Inr pts"
    and "dedupe rt pts = Inr dd"
  shows "route (resume rt myId (Inr res) s) = ll \<and> stops (resume rt myId (Inr res) s) = dd
    \<and> summary (resume rt myId (Inr res) s)
        = (if truthy (member res ''summary'') then member res ''summary'' else JNull)"
  using assms by (simp add: resume_def try_body_def Let_def)

text \<open>
  C1. Request A is submitted; then, whatever happens in between, request B is submitted;
  then, whatever happens after that (the settlement of B among it), the settlement of
  A, with any outcome, leaves the displayed route, stops and summary as they were. When
  B settles with a response that can be processed and A settles after it, the displayed
  route, stops and summary are those of B's response. The ids decide: B's is larger than
  A's, and the order of the settlements plays no part.
\<close>

theorem stale_result_never_committed:
  assumes "onSubmit s0 = (s1, Some a)" and "onSubmit (run rt es1 s1) = (s2, Some b)"
  shows "a < b
    \<and> route (resume rt a outA (run rt es2 s2)) = route (run rt es2 s2)
    \<and> stops (resume rt a outA (run rt es2 s2)) = stops (run rt es2 s2)
    \<and> summary (resume rt a outA (run rt es2 s2)) = summary (run rt es2 s2)
    \<and> (\<forall>res e ll pts dd.
          get res ''error'' = Inr e \<and> toLatLngs (route_geometry res) = Inr ll
          \<and> stop_points res = Inr pts \<and> dedupe rt pts = Inr dd \<longrightarrow>
          route (resume rt a outA (resume rt b (Inr res) s2)) = ll
          \<and> stops (resume rt a outA (resume rt b (Inr res) s2)) = dd
          \<and> summary (resume rt a outA (resume rt b (Inr res) s2))
              = (if truthy (member res ''summary'') then member res ''summary'' else JNull))"
proof -
  from onSubmit_issues [OF assms(1)] have a: "reqIdRef s1 = a" by simp
  from onSubmit_issues [OF assms(2)] have b: "b = reqIdRef (run rt es1 s1) + 1" "reqIdRef s2 = b"
    by simp_all
  from run_reqIdRef [of s1 rt es1] a b(1) have ab: "a < b" by simp
  from run_reqIdRef [of s2 rt es2] b(2) ab have st: "reqIdRef (run rt es2 s2) \<noteq> a" by simp
  note stale = resume_stale [OF st, of rt outA]
  have "route (resume rt a outA (resume rt b (Inr res) s2)) = ll
      \<and> stops (resume rt a outA (resume rt b (Inr res) s2)) = dd
      \<and> summary (resume rt a outA (resume rt b (Inr res) s2))
          = (if truthy (member res ''summary'') then member res ''summary'' else JNull)"
    if h: "get res ''error'' = Inr e" "toLatLngs (route_geometry res) = Inr ll"
      "stop_points res = Inr pts" "dedupe rt pts = Inr dd" for res e ll pts dd
  proof -
    from b(2) ab have "reqIdRef (resume rt b (Inr res) s2) \<noteq> a"
      by (simp add: resume_reqIdRef)
    from resume_stale [OF this, of rt outA] resume_commits [OF b(2) h]
    show ?thesis by simp
  qed
  with ab stale show ?thesis by blast
qed

lemma two_submitted_eq:
  "two_submitted = \<lparr>start = ''Denver, CO'', finish = ''Kansas City, MO'', startEmpty = True,
     loading = True, error = JNull, route = [], stops = [], summary = JNull,
     abortRef = Some 2, aborted = {1}, reqIdRef = 2\<rparr>"
  by (simp add: two_submitted_def initial_def onSubmit_def Let_def)

lemma scenario_parts:
  "get scenario_response ''error'' = Inr JUndefined"
  "toLatLngs (route_geometry scenario_response)
     = Inr [(JNum 39.7, JNum (-104.9)), (JNum 39.8, JNum (-104.8))]"
  "stop_points scenario_response = Inr [stop_A, stop_A_dup]"
  by (simp_all add: scenario_response_def route_geometry_def toLatLngs_def swap_point_def
      stop_points_def to_StopPoint_def coord_field_def stop_A_def stop_A_dup_def)

theorem stale_result_never_committed_witness:
  "onSubmit (initial ''Denver, CO'' ''Kansas City, MO'')
     = (fst (onSubmit (initial ''Denver, CO'' ''Kansas City, MO'')), Some 1)
   \<and> onSubmit (run sample_runtime [] (fst (onSubmit (initial ''Denver, CO'' ''Kansas City, MO''))))
     = (two_submitted, Some 2)
   \<and> route (resume sample_runtime 1 (Inr (JObj [(''route'', JObj [(''geometry'',
          payload [JArr [JNum 1, JNum 2], JArr [JNum 3, JNum 4]])])]))
        (resume sample_runtime 2 (Inr scenario_response) two_submitted))
     = [(JNum 39.7, JNum (-104.9)), (JNum 39.8, JNum (-104.8))]
   \<and> stops (resume sample_runtime 1 (Inr (JObj [(''route'', JObj [(''geometry'',
          payload [JArr [JNum 1, JNum 2], JArr [JNum 3, JNum 4]])])]))
        (resume sample_runtime 2 (Inr scenario_response) two_submitted))
     = [stop_A]"
proof -
  let ?s0 = "initial ''Denver, CO'' ''Kansas City, MO''"
  have A: "onSubmit ?s0 = (fst (onSubmit ?s0), Some 1)"
    by (simp add: initial_def onSubmit_def Let_def)
  have B: "onSubmit (run sample_runtime [] (fst (onSubmit ?s0))) = (two_submitted, Some 2)"
    by (simp add: two_submitted_def initial_def onSubmit_def Let_def)
  from stale_result_never_committed [OF A B] scenario_parts sample_dedupe
  have "route (resume sample_runtime 1 (Inr (JObj [(''route'', JObj [(''geometry'',
          payload [JArr [JNum 1, JNum 2], JArr [JNum 3, JNum 4]])])]))
        (resume sample_runtime 2 (Inr scenario_response) two_submitted))
     = [(JNum 39.7, JNum (-104.9)), (JNum 39.8, JNum (-104.8))]
   \<and> stops (resume sample_runtime 1 (Inr (JObj [(''route'', JObj [(''geometry'',
          payload [JArr [JNum 1, JNum 2], JArr [JNum 3, JNum 4]])])]))
        (resume sample_runtime 2 (Inr scenario_response) two_submitted))
     = [stop_A]"
    by blast
  with A B show ?thesis by blast
qed

text \<open>
  C2, on the code. Two requests have been submitted, so the latest id is 2. The first
  request settles with a response that carries an \<^verbatim>\<open>error\<close> field: \<^verbatim>\<open>onSubmit\<close> stores the
  field before it compares the ids, and the message of the superseded response is
  shown. So is the text of a superseded request that fails.
\<close>

theorem stale_error_field_shown:
  "reqIdRef two_submitted = 2 \<and> error two_submitted = JNull
   \<and> error (resume sample_runtime 1 (Inr (JObj [(''error'', JStr ''No route found'')]))
        two_submitted) = JStr ''No route found''
   \<and> error (resume sample_runtime 1
        (planRoute sample_runtime (Response 500 (Inr ''internal error''))) two_submitted)
       = JStr ''Request failed (500): internal error''"
  by (simp add: two_submitted_eq resume_def try_body_def planRoute_def ok_def error_text_def
      Error_def dec_500)

text \<open>
  C3, on the code. The second submission has called \<^verbatim>\<open>abort()\<close> on the controller of the
  first request, whose \<^verbatim>\<open>fetch\<close> is then rejected with an \<^verbatim>\<open>AbortError\<close>. The \<^verbatim>\<open>catch\<close> block
  of \<^verbatim>\<open>onSubmit\<close> shows its message and the \<^verbatim>\<open>finally\<close> block ends the loading state of the
  request that replaced it. The location search, on the same error, shows nothing.
\<close>

theorem abort_error_shown:
  "1 \<in> aborted two_submitted \<and> reqIdRef two_submitted = 2
   \<and> planRoute sample_runtime (Rejected AbortError) = Inl AbortError
   \<and> error (resume sample_runtime 1 (planRoute sample_runtime (Rejected AbortError))
        two_submitted) = JStr ''The user aborted a request.''
   \<and> loading (resume sample_runtime 1 (planRoute sample_runtime (Rejected AbortError))
        two_submitted) = False
   \<and> ac_error (autocomplete_catch AbortError
        \<lparr>ac_open = False, ac_loading = True, ac_error = JNull, ac_items = []\<rparr>) = JNull"
  by (simp add: two_submitted_eq resume_def planRoute_def error_text_def AbortError_def
      autocomplete_catch_def)

end
